theory Spec2Isabelle
  imports Main "HOL-Library.Word"
begin

section \<open>JavaScript strings\<close>

text \<open>
  A JavaScript string is a sequence of 16-bit code units. The regular expressions of
  \<^verbatim>\<open>imageAnalysis.ts\<close> have no \<^verbatim>\<open>u\<close> flag, so they work on code units too.
  \<open>js\<close> embeds an ASCII literal.
\<close>

type_synonym jschar = "16 word"
type_synonym jsstring = "jschar list"

definition ch :: "char \<Rightarrow> jschar" where
  "ch c = of_nat (of_char c)"

definition js :: "string \<Rightarrow> jsstring" where
  "js s = map ch s"

text \<open>
  A value read from an array index or a \<^verbatim>\<open>Map\<close> is a string or \<^verbatim>\<open>undefined\<close>.
\<close>

datatype jsval = Undefined | Str jsstring

text \<open>\<^verbatim>\<open>xs[i]\<close>: reading past the end of an array gives \<^verbatim>\<open>undefined\<close>.\<close>

definition idx :: "jsstring list \<Rightarrow> nat \<Rightarrow> jsval" where
  "idx xs i = (if i < length xs then Str (xs ! i) else Undefined)"

text \<open>
  ECMAScript's LineTerminator and WhiteSpace productions. \<^verbatim>\<open>\s\<close> and
  \<^verbatim>\<open>String.prototype.trim\<close> use their union, \<^verbatim>\<open>\S\<close> and \<^verbatim>\<open>[^\s]\<close> its
  complement, and \<^verbatim>\<open>.\<close> is every code unit that is not a LineTerminator.
\<close>

definition isLineTerminator :: "jschar \<Rightarrow> bool" where
  "isLineTerminator c \<longleftrightarrow> c = 0x000A \<or> c = 0x000D \<or> c = 0x2028 \<or> c = 0x2029"

definition isWhiteSpace :: "jschar \<Rightarrow> bool" where
  "isWhiteSpace c \<longleftrightarrow>
     c = 0x0009 \<or> c = 0x000B \<or> c = 0x000C \<or> c = 0x0020 \<or> c = 0x00A0 \<or> c = 0x1680 \<or>
     (0x2000 \<le> c \<and> c \<le> 0x200A) \<or> c = 0x202F \<or> c = 0x205F \<or> c = 0x3000 \<or> c = 0xFEFF"

definition isSpace :: "jschar \<Rightarrow> bool" where
  "isSpace c \<longleftrightarrow> isWhiteSpace c \<or> isLineTerminator c"

definition notSpace :: "jschar \<Rightarrow> bool" where
  "notSpace c \<longleftrightarrow> \<not> isSpace c"

text \<open>\<^verbatim>\<open>s.trim()\<close>\<close>

definition trim :: "jsstring \<Rightarrow> jsstring" where
  "trim s = rev (dropWhile isSpace (rev (dropWhile isSpace s)))"

text \<open>
  \<^verbatim>\<open>s.split(sep)\<close> for a separator of one code unit (\<^verbatim>\<open>'='\<close> and \<^verbatim>\<open>'\n'\<close> in the
  source): every occurrence of the separator ends a segment, and the result always has
  at least one segment.
\<close>

function split :: "jschar \<Rightarrow> jsstring \<Rightarrow> jsstring list" where
  "split sep s =
     (case dropWhile (\<lambda>c. c \<noteq> sep) s of
        [] \<Rightarrow> [s]
      | _ # rest \<Rightarrow> takeWhile (\<lambda>c. c \<noteq> sep) s # split sep rest)"
  by pat_completeness auto
termination
proof (relation "measure (\<lambda>(sep, s). length s)")
  show "wf (measure (\<lambda>(sep, s). length s))" by simp
next
  fix sep :: jschar and s :: jsstring and x rest
  assume "dropWhile (\<lambda>c. c \<noteq> sep) s = x # rest"
  then have "length (x # rest) \<le> length s"
    by (metis length_dropWhile_le)
  then show "((sep, rest), (sep, s)) \<in> measure (\<lambda>(sep, s). length s)" by simp
qed

declare split.simps [simp del]

section \<open>The regular expressions of \<open>DockerImageAnalysis\<close>\<close>

text \<open>
  \<^verbatim>\<open>FROM_REGEX = /^\s*FROM\s+(.*)/\<close> and \<^verbatim>\<open>ARG_REGEX = /^\s*ARG\s+(.*)/\<close>, used with
  \<^verbatim>\<open>line.match\<close>. Neither is global, so the result is \<^verbatim>\<open>null\<close> (\<open>None\<close>) or the match
  with its capture group 1 (\<open>Some\<close>). The greedy \<^verbatim>\<open>\s*\<close> takes the whole leading run of
  white space; giving some of it back never helps, since the keyword starts with a
  character that is not white space. In the same way \<^verbatim>\<open>\s+\<close> takes the whole run after
  the keyword, which must have at least one character, and \<^verbatim>\<open>(.*)\<close> takes everything
  up to the first line terminator.
\<close>

definition matchDirective :: "jsstring \<Rightarrow> jsstring \<Rightarrow> jsstring option" where
  "matchDirective keyword line =
     (let afterIndent = dropWhile isSpace line;
          afterKeyword = drop (length keyword) afterIndent
      in if take (length keyword) afterIndent = keyword \<and> takeWhile isSpace afterKeyword \<noteq> []
         then Some (takeWhile (\<lambda>c. \<not> isLineTerminator c) (dropWhile isSpace afterKeyword))
         else None)"

definition FROM_REGEX :: "jsstring \<Rightarrow> jsstring option" where
  "FROM_REGEX = matchDirective (js ''FROM'')"

definition ARG_REGEX :: "jsstring \<Rightarrow> jsstring option" where
  "ARG_REGEX = matchDirective (js ''ARG'')"

text \<open>
  \<^verbatim>\<open>/\${([^{}]+)}/\<close> tried at the start of \<open>s\<close>: a dollar sign, an opening brace, the
  longest non-empty run of characters that are not braces, and a closing brace. The
  result is the captured name and the text after the match.
\<close>

definition notBrace :: "jschar \<Rightarrow> bool" where
  "notBrace c \<longleftrightarrow> c \<noteq> ch CHR ''{'' \<and> c \<noteq> ch CHR ''}''"

definition matchVar :: "jsstring \<Rightarrow> (jsstring \<times> jsstring) option" where
  "matchVar s =
     (if take 2 s = js ''${''
      then (let key = takeWhile notBrace (drop 2 s)
            in case dropWhile notBrace (drop 2 s) of
                 [] \<Rightarrow> None
               | c # rest \<Rightarrow> if key \<noteq> [] \<and> c = ch CHR ''}'' then Some (key, rest) else None)
      else None)"

text \<open>
  \<^verbatim>\<open>PLATFORM_REGEX = /--platform=([^\s]+)/g\<close> tried at the start of \<open>s\<close>: the literal
  text and the longest non-empty run of characters that are not white space. The result
  is the matched text and the text after the match.
\<close>

definition matchPlatform :: "jsstring \<Rightarrow> (jsstring \<times> jsstring) option" where
  "matchPlatform s =
     (let n = length (js ''--platform='');
          val = takeWhile notSpace (drop n s)
      in if take n s = js ''--platform='' \<and> val \<noteq> []
         then Some (js ''--platform='' @ val, dropWhile notSpace (drop n s))
         else None)"

text \<open>
  \<^verbatim>\<open>AS_REGEX = /\s+AS\s+\S+/gi\<close> tried at the start of \<open>s\<close>: a non-empty run of white
  space, the letters A and S in either case, a non-empty run of white space, and the
  longest non-empty run of characters that are not white space. Both runs of white space
  are taken whole: after a shorter one the next character is white space, which is
  neither a letter nor matched by \<^verbatim>\<open>\S\<close>. The result is the text after the match.
\<close>

definition matchAS :: "jsstring \<Rightarrow> jsstring option" where
  "matchAS s =
     (let afterWs = dropWhile isSpace s;
          afterAS = dropWhile isSpace (drop 2 afterWs)
      in if takeWhile isSpace s \<noteq> []
            \<and> take 2 afterWs \<in> {js ''AS'', js ''As'', js ''aS'', js ''as''}
            \<and> takeWhile isSpace (drop 2 afterWs) \<noteq> []
            \<and> takeWhile notSpace afterAS \<noteq> []
         then Some (dropWhile notSpace afterAS)
         else None)"

section \<open>Replacing with a global regular expression\<close>

text \<open>
  \<^verbatim>\<open>s.replace(re, ...)\<close> with a global \<^verbatim>\<open>re\<close> looks for the leftmost match, replaces it
  and goes on after its end; a character at which no match starts is kept. None of the
  three patterns matches the empty string, so every match moves forward.
\<close>

text \<open>
  \<^verbatim>\<open>args: Map<string, string>\<close>. At run time the keys and values are whatever
  \<^verbatim>\<open>args.set\<close> was given, \<^verbatim>\<open>undefined\<close> included.
\<close>

type_synonym argtable = "jsval \<Rightarrow> jsval option"

text \<open>
  \<^verbatim>\<open>this.args.get(key) || ''\<close>: a missing key, a stored \<^verbatim>\<open>undefined\<close> and a stored
  empty string all give the empty string.
\<close>

definition getOrEmpty :: "argtable \<Rightarrow> jsstring \<Rightarrow> jsstring" where
  "getOrEmpty args key = (case args (Str key) of Some (Str v) \<Rightarrow> v | _ \<Rightarrow> [])"

function replaceArgsInString :: "argtable \<Rightarrow> jsstring \<Rightarrow> jsstring" where
  "replaceArgsInString args [] = []"
| "replaceArgsInString args (c # cs) =
     (case matchVar (c # cs) of
        Some (key, rest) \<Rightarrow> getOrEmpty args key @ replaceArgsInString args rest
      | None \<Rightarrow> c # replaceArgsInString args cs)"
  by pat_completeness auto
termination
proof -
  have shorter: "length rest < length s" if "matchVar s = Some (key, rest)" for s key rest
  proof -
    from that obtain c where "dropWhile notBrace (drop 2 s) = c # rest"
      by (auto simp: matchVar_def Let_def split: if_splits list.splits)
    then have "length (c # rest) \<le> length (drop 2 s)"
      by (metis length_dropWhile_le)
    then show ?thesis by simp
  qed
  show ?thesis
    by (relation "measure (\<lambda>(args, s). length s)") (auto dest: shorter)
qed

text \<open>\<^verbatim>\<open>imageData.replace(this.PLATFORM_REGEX, '')\<close>\<close>

function removePlatform :: "jsstring \<Rightarrow> jsstring" where
  "removePlatform [] = []"
| "removePlatform (c # cs) =
     (case matchPlatform (c # cs) of
        Some (m, rest) \<Rightarrow> removePlatform rest
      | None \<Rightarrow> c # removePlatform cs)"
  by pat_completeness auto
termination
proof -
  have shorter: "length rest < length s" if "matchPlatform s = Some (m, rest)" for s m rest
  proof -
    let ?n = "length (js ''--platform='')"
    from that have r: "rest = dropWhile notSpace (drop ?n s)"
      and t: "take ?n s = js ''--platform=''"
      by (auto simp: matchPlatform_def Let_def split: if_splits)
    from t have "?n \<le> length s"
      by (metis length_take min.cobounded1)
    moreover have "length rest \<le> length s - ?n"
      unfolding r by (metis length_dropWhile_le length_drop)
    moreover have "0 < ?n" by (simp add: js_def)
    ultimately show ?thesis by linarith
  qed
  show ?thesis
    by (relation "measure length") (auto dest: shorter)
qed

text \<open>\<^verbatim>\<open>imageData.replace(this.AS_REGEX, '')\<close>\<close>

function removeAS :: "jsstring \<Rightarrow> jsstring" where
  "removeAS [] = []"
| "removeAS (c # cs) =
     (case matchAS (c # cs) of
        Some rest \<Rightarrow> removeAS rest
      | None \<Rightarrow> c # removeAS cs)"
  by pat_completeness auto
termination
proof -
  have shorter: "length rest < length s" if "matchAS s = Some rest" for s rest
  proof -
    from that
    have r: "rest = dropWhile notSpace (dropWhile isSpace (drop 2 (dropWhile isSpace s)))"
      and w: "takeWhile isSpace s \<noteq> []"
      by (auto simp: matchAS_def Let_def split: if_splits)
    have "length rest \<le> length (dropWhile isSpace (drop 2 (dropWhile isSpace s)))"
      unfolding r by (rule length_dropWhile_le)
    also have "\<dots> \<le> length (drop 2 (dropWhile isSpace s))"
      by (rule length_dropWhile_le)
    also have "\<dots> \<le> length (dropWhile isSpace s)"
      by simp
    finally have "length rest \<le> length (dropWhile isSpace s)" .
    moreover have "length (takeWhile isSpace s) + length (dropWhile isSpace s) = length s"
      by (metis length_append takeWhile_dropWhile_id)
    moreover from w have "0 < length (takeWhile isSpace s)" by simp
    ultimately show ?thesis by linarith
  qed
  show ?thesis
    by (relation "measure length") (auto dest: shorter)
qed

text \<open>
  \<^verbatim>\<open>line.match(this.PLATFORM_REGEX)\<close>: with a global expression \<^verbatim>\<open>match\<close> returns the
  matched texts from left to right, or \<^verbatim>\<open>null\<close> when there is none (the empty list
  here).
\<close>

function matchAllPlatform :: "jsstring \<Rightarrow> jsstring list" where
  "matchAllPlatform [] = []"
| "matchAllPlatform (c # cs) =
     (case matchPlatform (c # cs) of
        Some (m, rest) \<Rightarrow> m # matchAllPlatform rest
      | None \<Rightarrow> matchAllPlatform cs)"
  by pat_completeness auto
termination
proof -
  have shorter: "length rest < length s" if "matchPlatform s = Some (m, rest)" for s m rest
  proof -
    let ?n = "length (js ''--platform='')"
    from that have r: "rest = dropWhile notSpace (drop ?n s)"
      and t: "take ?n s = js ''--platform=''"
      by (auto simp: matchPlatform_def Let_def split: if_splits)
    from t have "?n \<le> length s"
      by (metis length_take min.cobounded1)
    moreover have "length rest \<le> length s - ?n"
      unfolding r by (metis length_dropWhile_le length_drop)
    moreover have "0 < ?n" by (simp add: js_def)
    ultimately show ?thesis by linarith
  qed
  show ?thesis
    by (relation "measure length") (auto dest: shorter)
qed

section \<open>The directive interpreter\<close>

record IImageRef =
  image :: jsstring
  platform :: jsval

text \<open>
  \<^verbatim>\<open>parseLine\<close> reads and writes \<^verbatim>\<open>this.args\<close>; here the table is passed in and the
  new one returned. The reference is \<open>None\<close> where the source returns \<^verbatim>\<open>undefined\<close>.
\<close>

definition parseLine :: "argtable \<Rightarrow> jsstring \<Rightarrow> argtable \<times> IImageRef option" where
  "parseLine args line =
     (let args1 =
            (case ARG_REGEX line of
               Some argMatch1 \<Rightarrow>
                 (let argData = split (ch CHR ''='') (trim argMatch1)
                  in args(idx argData 0 \<mapsto> idx argData 1))
             | None \<Rightarrow> args)
      in case FROM_REGEX line of
           Some imageMatch1 \<Rightarrow>
             (let imageData = trim (removeAS (removePlatform (replaceArgsInString args1 imageMatch1)))
              in if imageData = js ''scratch'' then (args1, None)
                 else (let platformData =
                             (case matchAllPlatform line of
                                [] \<Rightarrow> Str []
                              | platformMatch0 # _ \<Rightarrow> idx (split (ch CHR ''='') platformMatch0) 1)
                       in (args1, Some \<lparr>image = imageData, platform = platformData\<rparr>)))
         | None \<Rightarrow> (args1, None))"

section \<open>The manifest image collector\<close>

text \<open>
  \<^verbatim>\<open>collectImages\<close> is a \<^verbatim>\<open>reduce\<close> from the left with the list of images as its
  accumulator; the argument table of the instance changes on the way.
\<close>

definition collectStep :: "argtable \<times> IImageRef list \<Rightarrow> jsstring \<Rightarrow> argtable \<times> IImageRef list" where
  "collectStep acc line =
     (case parseLine (fst acc) line of
        (args1, Some parsedImage) \<Rightarrow> (args1, snd acc @ [parsedImage])
      | (args1, None) \<Rightarrow> (args1, snd acc))"

definition collectImages :: "argtable \<Rightarrow> jsstring list \<Rightarrow> argtable \<times> IImageRef list" where
  "collectImages args lines = foldl collectStep (args, []) lines"

section \<open>The orchestrator\<close>

text \<open>\<^verbatim>\<open>IOptions\<close>, the options handed to the analysis service.\<close>

record IOptions =
  RHDA_TOKEN :: jsstring
  RHDA_SOURCE :: jsstring
  EXHORT_SYFT_PATH :: jsstring
  EXHORT_SYFT_CONFIG_PATH :: jsstring
  EXHORT_SYFT_IMAGE_SOURCE :: jsstring
  EXHORT_SKOPEO_PATH :: jsstring
  EXHORT_SKOPEO_CONFIG_PATH :: jsstring
  EXHORT_IMAGE_SERVICE_ENDPOINT :: jsstring
  EXHORT_DOCKER_PATH :: jsstring
  EXHORT_PODMAN_PATH :: jsstring
  EXHORT_IMAGE_PLATFORM :: jsstring
  EXHORT_IMAGE_OS :: jsstring
  EXHORT_IMAGE_ARCH :: jsstring
  EXHORT_IMAGE_VARIANT :: jsstring

text \<open>
  Modelled from the spec: \<^verbatim>\<open>globalConfig\<close> of \<^verbatim>\<open>./config\<close> is not among the sources. The
  spec calls it an opaque snapshot of configuration values provided from outside; the
  fields below are the ones the field initialiser of \<^verbatim>\<open>options\<close> reads.
\<close>

record Config =
  telemetryId :: jsstring
  utmSource :: jsstring
  exhortSyftPath :: jsstring
  exhortSyftConfigPath :: jsstring
  exhortSyftImageSource :: jsstring
  exhortSkopeoPath :: jsstring
  exhortSkopeoConfigPath :: jsstring
  exhortImageServiceEndpoint :: jsstring
  exhortDockerPath :: jsstring
  exhortPodmanPath :: jsstring
  exhortImagePlatform :: jsstring
  exhortImageOS :: jsstring
  exhortImageArch :: jsstring
  exhortImageVariant :: jsstring

text \<open>
  Modelled from the spec: the texts of \<^verbatim>\<open>StatusMessages\<close> are in \<^verbatim>\<open>./constants\<close>, which
  is not among the sources. The spec names four progress phases (analyzing dependencies,
  generating output, success, failure); a report is recorded by the name of the constant
  the source passes.
\<close>

datatype StatusMessages =
  WIN_ANALYZING_DEPENDENCIES
| WIN_GENERATING_DEPENDENCIES
| WIN_SUCCESS_DEPENDENCY_ANALYSIS
| WIN_FAILURE_DEPENDENCY_ANALYSIS

text \<open>
  What the collaborators see, in the order of the calls: \<^verbatim>\<open>p.report\<close> on the progress
  object, \<^verbatim>\<open>updateCurrentWebviewPanel\<close> (the display), and the call of
  \<^verbatim>\<open>imageAnalysisService\<close> with its two arguments.
\<close>

datatype event =
  Report StatusMessages
| UpdateCurrentWebviewPanel jsstring
| ImageAnalysisService "IImageRef list" IOptions

text \<open>
  Modelled from the spec: \<^verbatim>\<open>imageAnalysisService\<close> of \<^verbatim>\<open>./exhortServices\<close> and
  \<^verbatim>\<open>updateCurrentWebviewPanel\<close> of \<^verbatim>\<open>./rhda\<close> are not among the sources. The spec
  gives the first as \<^verbatim>\<open>analyze(images, options) -> Promise<string>\<close>, which resolves with
  a payload (\<open>Inr\<close>) or rejects with an error (\<open>Inl\<close>), and the second as a display that
  takes the payload or an error marker; the display and the progress object are taken
  not to throw. \<^verbatim>\<open>fs.readFileSync\<close> followed by \<^verbatim>\<open>toString('utf-8')\<close> gives the decoded
  text of the file or throws. \<^verbatim>\<open>vscode.window.withProgress\<close> runs its task with a
  progress object and settles as the task does.
\<close>

record 'e env =
  readFileSync :: "jsstring \<Rightarrow> 'e + jsstring"
  imageAnalysisService :: "IImageRef list \<Rightarrow> IOptions \<Rightarrow> 'e + jsstring"
  globalConfig :: Config

record DockerImageAnalysis =
  options :: IOptions
  args :: argtable
  images :: "IImageRef list"
  imageAnalysisReportHtml :: jsstring

text \<open>
  A method returns the events it caused and either the error it threw (or rejected with)
  or its value.
\<close>

definition parseTxtDoc :: "'e env \<Rightarrow> jsstring \<Rightarrow> event list \<times> ('e + jsstring list)" where
  "parseTxtDoc e filePath =
     (case readFileSync e filePath of
        Inr contentString \<Rightarrow> ([], Inr (split 0x000A contentString))
      | Inl err \<Rightarrow> ([UpdateCurrentWebviewPanel (js ''error'')], Inl err))"

definition initialOptions :: "Config \<Rightarrow> IOptions" where
  "initialOptions c =
     \<lparr>RHDA_TOKEN = telemetryId c,
      RHDA_SOURCE = utmSource c,
      EXHORT_SYFT_PATH = exhortSyftPath c,
      EXHORT_SYFT_CONFIG_PATH = exhortSyftConfigPath c,
      EXHORT_SYFT_IMAGE_SOURCE = exhortSyftImageSource c,
      EXHORT_SKOPEO_PATH = exhortSkopeoPath c,
      EXHORT_SKOPEO_CONFIG_PATH = exhortSkopeoConfigPath c,
      EXHORT_IMAGE_SERVICE_ENDPOINT = exhortImageServiceEndpoint c,
      EXHORT_DOCKER_PATH = exhortDockerPath c,
      EXHORT_PODMAN_PATH = exhortPodmanPath c,
      EXHORT_IMAGE_PLATFORM = exhortImagePlatform c,
      EXHORT_IMAGE_OS = exhortImageOS c,
      EXHORT_IMAGE_ARCH = exhortImageArch c,
      EXHORT_IMAGE_VARIANT = exhortImageVariant c\<rparr>"

text \<open>The constructor: the field initialisers, then \<^verbatim>\<open>parseTxtDoc\<close> and \<^verbatim>\<open>collectImages\<close>.\<close>

definition newDockerImageAnalysis ::
  "'e env \<Rightarrow> jsstring \<Rightarrow> event list \<times> ('e + DockerImageAnalysis)" where
  "newDockerImageAnalysis e filePath =
     (case parseTxtDoc e filePath of
        (evs, Inl err) \<Rightarrow> (evs, Inl err)
      | (evs, Inr lines) \<Rightarrow>
          (case collectImages Map.empty lines of
             (args1, images1) \<Rightarrow>
               (evs, Inr \<lparr>options = initialOptions (globalConfig e), args = args1,
                          images = images1, imageAnalysisReportHtml = []\<rparr>)))"

text \<open>
  The promise built inside \<^verbatim>\<open>withProgress\<close>: the first report, the call of the service,
  and its \<^verbatim>\<open>then\<close> and \<^verbatim>\<open>catch\<close> handlers.
\<close>

definition progressTask ::
  "'e env \<Rightarrow> DockerImageAnalysis \<Rightarrow> event list \<times> ('e + DockerImageAnalysis)" where
  "progressTask e this =
     (let started = [Report WIN_ANALYZING_DEPENDENCIES,
                     ImageAnalysisService (images this) (options this)]
      in case imageAnalysisService e (images this) (options this) of
           Inr resp \<Rightarrow>
             (started @ [Report WIN_GENERATING_DEPENDENCIES,
                         UpdateCurrentWebviewPanel resp,
                         Report WIN_SUCCESS_DEPENDENCY_ANALYSIS],
              Inr (this\<lparr>imageAnalysisReportHtml := resp\<rparr>))
         | Inl err \<Rightarrow> (started @ [Report WIN_FAILURE_DEPENDENCY_ANALYSIS], Inl err))"

text \<open>\<^verbatim>\<open>runImageAnalysis\<close>: the \<^verbatim>\<open>try\<close> around the awaited task and its \<^verbatim>\<open>catch\<close>.\<close>

definition runImageAnalysis ::
  "'e env \<Rightarrow> DockerImageAnalysis \<Rightarrow> event list \<times> ('e + DockerImageAnalysis)" where
  "runImageAnalysis e this =
     (case progressTask e this of
        (evs, Inl err) \<Rightarrow> (evs @ [UpdateCurrentWebviewPanel (js ''error'')], Inl err)
      | (evs, Inr this1) \<Rightarrow> (evs, Inr this1))"

definition executeDockerImageAnalysis :: "'e env \<Rightarrow> jsstring \<Rightarrow> event list \<times> ('e + jsstring)" where
  "executeDockerImageAnalysis e filePath =
     (case newDockerImageAnalysis e filePath of
        (evs, Inl error) \<Rightarrow> (evs, Inl error)
      | (evs, Inr dockerImageAnalysis) \<Rightarrow>
          (case runImageAnalysis e dockerImageAnalysis of
             (evs1, Inl error) \<Rightarrow> (evs @ evs1, Inl error)
           | (evs1, Inr dockerImageAnalysis1) \<Rightarrow>
               (evs @ evs1, Inr (imageAnalysisReportHtml dockerImageAnalysis1))))"

section \<open>Alias fragments in words\<close>

text \<open>
  The spec describes a build-stage alias as \<^verbatim>\<open> AS <identifier>\<close>, matched without regard
  to case. \<open>aliasFragment\<close> writes that description out, to be compared with \<open>matchAS\<close>,
  which follows the source: a fragment is a non-empty run of white space, the letter A
  and the letter S, each in either case, a non-empty run of white space, and a non-empty
  run of characters that are not white space. \<open>startsWithAlias\<close> says that a text begins
  with a fragment.
\<close>

definition aliasFragment :: "jsstring \<Rightarrow> bool" where
  "aliasFragment frag \<longleftrightarrow>
     (\<exists>ws1 kw ws2 ident.
        frag = ws1 @ kw @ ws2 @ ident
        \<and> ws1 \<noteq> [] \<and> (\<forall>c\<in>set ws1. isSpace c)
        \<and> kw \<in> {js ''AS'', js ''As'', js ''aS'', js ''as''}
        \<and> ws2 \<noteq> [] \<and> (\<forall>c\<in>set ws2. isSpace c)
        \<and> ident \<noteq> [] \<and> (\<forall>c\<in>set ident. \<not> isSpace c))"

definition startsWithAlias :: "jsstring \<Rightarrow> bool" where
  "startsWithAlias s \<longleftrightarrow> (\<exists>frag rest. s = frag @ rest \<and> aliasFragment frag)"

section \<open>Example environments\<close>

text \<open>
  An environment whose file read and analysis service have fixed outcomes, with an empty
  configuration and natural numbers as errors.
\<close>

definition emptyConfig :: Config where
  "emptyConfig =
     \<lparr>telemetryId = [], utmSource = [], exhortSyftPath = [], exhortSyftConfigPath = [],
      exhortSyftImageSource = [], exhortSkopeoPath = [], exhortSkopeoConfigPath = [],
      exhortImageServiceEndpoint = [], exhortDockerPath = [], exhortPodmanPath = [],
      exhortImagePlatform = [], exhortImageOS = [], exhortImageArch = [],
      exhortImageVariant = []\<rparr>"

definition exampleEnv :: "nat + jsstring \<Rightarrow> nat + jsstring \<Rightarrow> nat env" where
  "exampleEnv file answer =
     \<lparr>readFileSync = (\<lambda>filePath. file),
      imageAnalysisService = (\<lambda>imgs opts. answer),
      globalConfig = emptyConfig\<rparr>"

section \<open>Properties of the collector and the interpreter\<close>

lemma foldl_collectStep_acc:
  "foldl collectStep (tbl, acc) ls =
     (fst (foldl collectStep (tbl, []) ls), acc @ snd (foldl collectStep (tbl, []) ls))"
proof (induction ls arbitrary: tbl acc)
  case Nil
  show ?case by simp
next
  case (Cons l ls)
  obtain t1 r where p: "parseLine tbl l = (t1, r)"
    by (cases "parseLine tbl l")
  show ?case
  proof (cases r)
    case None
    with p show ?thesis
      using Cons.IH [of t1 acc] by (simp add: collectStep_def)
  next
    case (Some x)
    with p show ?thesis
      using Cons.IH [of t1 "acc @ [x]"] Cons.IH [of t1 "[x]"] by (simp add: collectStep_def)
  qed
qed

lemma collectImages_Nil: "collectImages tbl [] = (tbl, [])"
  by (simp add: collectImages_def)

lemma collectImages_Cons:
  "collectImages tbl (l # ls) =
     (fst (collectImages (fst (parseLine tbl l)) ls),
      (case snd (parseLine tbl l) of None \<Rightarrow> [] | Some r \<Rightarrow> [r])
        @ snd (collectImages (fst (parseLine tbl l)) ls))"
proof -
  obtain t1 r where p: "parseLine tbl l = (t1, r)"
    by (cases "parseLine tbl l")
  show ?thesis
  proof (cases r)
    case None
    with p show ?thesis
      by (simp add: collectImages_def collectStep_def)
  next
    case (Some x)
    with p show ?thesis
      using foldl_collectStep_acc [of t1 "[x]" ls]
      by (simp add: collectImages_def collectStep_def)
  qed
qed

lemma collectImages_append:
  "collectImages tbl (xs @ ys) =
     (fst (collectImages (fst (collectImages tbl xs)) ys),
      snd (collectImages tbl xs) @ snd (collectImages (fst (collectImages tbl xs)) ys))"
proof (induction xs arbitrary: tbl)
  case Nil
  show ?case by (simp add: collectImages_Nil)
next
  case (Cons x xs)
  show ?case
    using Cons.IH [of "fst (parseLine tbl x)"]
    by (simp add: collectImages_Cons)
qed

lemma keyword_clash:
  "take (length (js ''FROM'')) s = js ''FROM'' \<Longrightarrow> take (length (js ''ARG'')) s \<noteq> js ''ARG''"
  by (cases s) (auto simp: js_def ch_def)

lemma FROM_ARG_exclusive: "FROM_REGEX line = Some cap \<Longrightarrow> ARG_REGEX line = None"
proof -
  assume "FROM_REGEX line = Some cap"
  then have "take (length (js ''FROM'')) (dropWhile isSpace line) = js ''FROM''"
    by (simp add: FROM_REGEX_def matchDirective_def Let_def split: if_splits)
  then have "take (length (js ''ARG'')) (dropWhile isSpace line) \<noteq> js ''ARG''"
    by (rule keyword_clash)
  then show ?thesis
    by (simp add: ARG_REGEX_def matchDirective_def Let_def)
qed

lemma parseLine_no_ARG: "ARG_REGEX line = None \<Longrightarrow> fst (parseLine tbl line) = tbl"
  by (simp add: parseLine_def Let_def split: option.splits)

lemma parseLine_no_FROM: "FROM_REGEX line = None \<Longrightarrow> snd (parseLine tbl line) = None"
  by (simp add: parseLine_def Let_def split: option.splits)

lemma parseLine_FROM:
  "FROM_REGEX line = Some cap \<Longrightarrow>
   parseLine tbl line =
     (tbl,
      if trim (removeAS (removePlatform (replaceArgsInString tbl cap))) = js ''scratch'' then None
      else Some \<lparr>image = trim (removeAS (removePlatform (replaceArgsInString tbl cap))),
                 platform = (case matchAllPlatform line of
                               [] \<Rightarrow> Str []
                             | platformMatch0 # _ \<Rightarrow> idx (split (ch CHR ''='') platformMatch0) 1)\<rparr>)"
  using FROM_ARG_exclusive [of line cap]
  by (simp add: parseLine_def Let_def)

lemma parseLine_Some:
  assumes "snd (parseLine tbl line) = Some r"
  shows "\<exists>cap. FROM_REGEX line = Some cap
           \<and> image r = trim (removeAS (removePlatform (replaceArgsInString tbl cap)))
           \<and> image r \<noteq> js ''scratch''
           \<and> fst (parseLine tbl line) = tbl"
proof (cases "FROM_REGEX line")
  case None
  with assms show ?thesis by (simp add: parseLine_no_FROM)
next
  case (Some cap)
  with assms show ?thesis
    by (auto simp: parseLine_FROM split: if_splits)
qed

lemma dropWhile_idem: "dropWhile P (dropWhile P xs) = dropWhile P xs"
  by (induction xs) auto

lemma trim_no_leading: "dropWhile isSpace (trim s) = trim s"
proof (cases "trim s")
  case Nil
  then show ?thesis by simp
next
  case (Cons c cs)
  let ?t = "dropWhile isSpace s"
  have "rev (trim s) = dropWhile isSpace (rev ?t)"
    by (simp add: trim_def)
  then have "rev ?t = takeWhile isSpace (rev ?t) @ rev (trim s)"
    by (metis takeWhile_dropWhile_id)
  then have "?t = trim s @ rev (takeWhile isSpace (rev ?t))"
    by (metis rev_append rev_rev_ident)
  with Cons have t: "?t = c # (cs @ rev (takeWhile isSpace (rev ?t)))"
    by simp
  then have "\<not> isSpace c"
    by (metis hd_dropWhile list.sel(1) list.distinct(1))
  with Cons show ?thesis by simp
qed

lemma trim_idem: "trim (trim s) = trim s"
proof -
  have "rev (trim s) = dropWhile isSpace (rev (dropWhile isSpace s))"
    by (simp add: trim_def)
  then have "dropWhile isSpace (rev (trim s)) = rev (trim s)"
    by (simp add: dropWhile_idem)
  then show ?thesis
    unfolding trim_def [of "trim s"] by (simp add: trim_no_leading)
qed

lemma collected_image_resolved:
  "r \<in> set (snd (collectImages tbl lines)) \<Longrightarrow>
   \<exists>t l. snd (parseLine t l) = Some r"
proof (induction lines arbitrary: tbl)
  case Nil
  then show ?case by (simp add: collectImages_Nil)
next
  case (Cons l ls)
  from Cons.prems
  have "snd (parseLine tbl l) = Some r
        \<or> r \<in> set (snd (collectImages (fst (parseLine tbl l)) ls))"
    by (auto simp: collectImages_Cons split: option.splits)
  then show ?case
    using Cons.IH by blast
qed

lemma scratch_not_empty: "js ''scratch'' \<noteq> []"
  by (simp add: js_def)

lemma map_filter_Suc: "List.map_filter g (map Suc xs) = List.map_filter (\<lambda>i. g (Suc i)) xs"
  by (induction xs) (simp_all add: List.map_filter_simps split: option.splits)

lemma map_filter_upt_Suc:
  "List.map_filter g [0..<Suc n] =
     (case g 0 of None \<Rightarrow> [] | Some r \<Rightarrow> [r]) @ List.map_filter (\<lambda>i. g (Suc i)) [0..<n]"
proof -
  have "[0..<Suc n] = 0 # map Suc [0..<n]"
    by (simp add: upt_conv_Cons map_Suc_upt del: upt_Suc)
  then show ?thesis
    by (simp add: List.map_filter_simps map_filter_Suc del: upt_Suc split: option.splits)
qed

lemma collectImages_by_line:
  "snd (collectImages tbl lines) =
     List.map_filter
       (\<lambda>i. snd (parseLine (fst (collectImages tbl (take i lines))) (lines ! i)))
       [0..<length lines]"
proof (induction lines arbitrary: tbl)
  case Nil
  show ?case by (simp add: collectImages_Nil List.map_filter_simps)
next
  case (Cons l ls)
  have "snd (collectImages tbl (l # ls)) =
          (case snd (parseLine tbl l) of None \<Rightarrow> [] | Some r \<Rightarrow> [r])
            @ snd (collectImages (fst (parseLine tbl l)) ls)"
    by (simp add: collectImages_Cons)
  also have "snd (collectImages (fst (parseLine tbl l)) ls) =
      List.map_filter
        (\<lambda>i. snd (parseLine (fst (collectImages (fst (parseLine tbl l)) (take i ls))) (ls ! i)))
        [0..<length ls]"
    by (rule Cons.IH)
  finally show ?case
    by (simp add: map_filter_upt_Suc collectImages_Nil collectImages_Cons del: upt_Suc)
qed

lemma parseLine_yields_iff:
  "snd (parseLine tbl line) \<noteq> None \<longleftrightarrow>
     (\<exists>cap. FROM_REGEX line = Some cap
         \<and> trim (removeAS (removePlatform (replaceArgsInString tbl cap))) \<noteq> js ''scratch'')"
proof (cases "FROM_REGEX line")
  case None
  then show ?thesis by (simp add: parseLine_no_FROM)
next
  case (Some cap)
  then show ?thesis by (simp add: parseLine_FROM)
qed

lemma table_from_ARG_lines:
  "fst (collectImages tbl lines) = fst (collectImages tbl (filter (\<lambda>l. ARG_REGEX l \<noteq> None) lines))"
proof (induction lines arbitrary: tbl)
  case Nil
  show ?case by simp
next
  case (Cons l ls)
  show ?case
  proof (cases "ARG_REGEX l")
    case None
    then show ?thesis
      using Cons.IH [of tbl] by (simp add: collectImages_Cons parseLine_no_ARG)
  next
    case (Some a)
    then show ?thesis
      using Cons.IH [of "fst (parseLine tbl l)"] by (simp add: collectImages_Cons)
  qed
qed

lemma ARG_V_foo: "parseLine tbl (js ''ARG V=foo'') = (tbl(Str (js ''V'') \<mapsto> Str (js ''foo'')), None)"
proof -
  have a: "ARG_REGEX (js ''ARG V=foo'') = Some (js ''V=foo'')"
    by code_simp
  have s: "split (ch CHR ''='') (trim (js ''V=foo'')) = [js ''V'', js ''foo'']"
    by code_simp
  have f: "FROM_REGEX (js ''ARG V=foo'') = None"
    by code_simp
  show ?thesis
    by (simp add: parseLine_def a s f idx_def)
qed

lemma subst_base_V: "replaceArgsInString tbl (js ''base:${V}'') = js ''base:'' @ getOrEmpty tbl (js ''V'')"
  by (simp add: js_def ch_def matchVar_def notBrace_def)

lemma FROM_base_V:
  assumes "tbl (Str (js ''V'')) = Some (Str (js ''foo''))"
  shows "parseLine tbl (js ''FROM base:${V}'') = (tbl, Some \<lparr>image = js ''base:foo'', platform = Str []\<rparr>)"
proof -
  have f: "FROM_REGEX (js ''FROM base:${V}'') = Some (js ''base:${V}'')"
    by code_simp
  have g: "getOrEmpty tbl (js ''V'') = js ''foo''"
    using assms by (simp add: getOrEmpty_def)
  have j: "js ''base:'' @ js ''foo'' = js ''base:foo''"
    by (simp add: js_def)
  have r: "trim (removeAS (removePlatform (js ''base:foo''))) = js ''base:foo''"
    by code_simp
  have n: "js ''base:foo'' \<noteq> js ''scratch''"
    by code_simp
  have m: "matchAllPlatform (js ''FROM base:${V}'') = []"
    by code_simp
  show ?thesis
    by (simp add: parseLine_FROM [OF f] subst_base_V g j r n m)
qed

lemma run_then_rest:
  assumes "\<forall>c\<in>set xs. P c" and "ys = [] \<or> \<not> P (hd ys)"
  shows "takeWhile P (xs @ ys) = xs" and "dropWhile P (xs @ ys) = ys"
proof -
  from assms(2) have t: "takeWhile P ys = []"
    by (simp add: takeWhile_eq_Nil_iff)
  from assms(2) have d: "dropWhile P ys = ys"
    by (simp add: dropWhile_eq_self_iff)
  from assms(1) show "takeWhile P (xs @ ys) = xs"
    by (simp add: t)
  from assms(1) show "dropWhile P (xs @ ys) = ys"
    by (simp add: d)
qed

lemma AS_letters:
  assumes "kw \<in> {js ''AS'', js ''As'', js ''aS'', js ''as''}"
  shows "length kw = 2" and "\<not> isSpace (hd kw)"
  using assms
  by (auto simp: js_def ch_def isSpace_def isWhiteSpace_def isLineTerminator_def)

lemma matchAS_fragment:
  assumes ws1: "ws1 \<noteq> []" "\<forall>c\<in>set ws1. isSpace c"
    and kw: "kw \<in> {js ''AS'', js ''As'', js ''aS'', js ''as''}"
    and ws2: "ws2 \<noteq> []" "\<forall>c\<in>set ws2. isSpace c"
    and ident: "ident \<noteq> []" "\<forall>c\<in>set ident. \<not> isSpace c"
    and rest: "rest = [] \<or> isSpace (hd rest)"
  shows "matchAS (ws1 @ kw @ ws2 @ ident @ rest) = Some rest"
proof -
  from kw have len: "length kw = 2" and k0: "\<not> isSpace (hd kw)"
    by (rule AS_letters)+
  from len have kne: "kw \<noteq> []" by auto
  have h1: "kw @ ws2 @ ident @ rest = [] \<or> \<not> isSpace (hd (kw @ ws2 @ ident @ rest))"
    using k0 kne by simp
  have t1: "takeWhile isSpace (ws1 @ kw @ ws2 @ ident @ rest) = ws1"
    and d1: "dropWhile isSpace (ws1 @ kw @ ws2 @ ident @ rest) = kw @ ws2 @ ident @ rest"
    using run_then_rest [OF ws1(2) h1] by simp_all
  have k: "take 2 (kw @ ws2 @ ident @ rest) = kw"
    and dk: "drop 2 (kw @ ws2 @ ident @ rest) = ws2 @ ident @ rest"
    using len by simp_all
  have h2: "ident @ rest = [] \<or> \<not> isSpace (hd (ident @ rest))"
    using ident by (cases ident) simp_all
  have t2: "takeWhile isSpace (ws2 @ ident @ rest) = ws2"
    and d2: "dropWhile isSpace (ws2 @ ident @ rest) = ident @ rest"
    using run_then_rest [OF ws2(2) h2] by simp_all
  have i: "\<forall>c\<in>set ident. notSpace c"
    using ident(2) by (simp add: notSpace_def)
  have h3: "rest = [] \<or> \<not> notSpace (hd rest)"
    using rest by (simp add: notSpace_def)
  have t3: "takeWhile notSpace (ident @ rest) = ident"
    and d3: "dropWhile notSpace (ident @ rest) = rest"
    using run_then_rest [OF i h3] by simp_all
  show ?thesis
    unfolding matchAS_def Let_def d1 t1 k dk t2 d2 t3 d3
    using ws1(1) kw ws2(1) ident(1) by simp
qed

lemma removeAS_keeps_prefix:
  "\<forall>i<length pre. matchAS (drop i (pre @ s)) = None \<Longrightarrow> removeAS (pre @ s) = pre @ removeAS s"
proof (induction pre)
  case Nil
  show ?case by simp
next
  case (Cons p ps)
  from Cons.prems have "matchAS (drop 0 ((p # ps) @ s)) = None"
    by (metis length_greater_0_conv list.distinct(1))
  then have m: "matchAS (p # ps @ s) = None"
    by simp
  have "\<forall>i<length ps. matchAS (drop i (ps @ s)) = None"
  proof (intro allI impI)
    fix i assume "i < length ps"
    then have "Suc i < length (p # ps)" by simp
    with Cons.prems have "matchAS (drop (Suc i) ((p # ps) @ s)) = None"
      by blast
    then show "matchAS (drop i (ps @ s)) = None" by simp
  qed
  then have "removeAS (ps @ s) = ps @ removeAS s"
    by (rule Cons.IH)
  with m show ?case by simp
qed

lemma parseLine_table:
  "fst (parseLine tbl line) =
     (case ARG_REGEX line of
        None \<Rightarrow> tbl
      | Some cap \<Rightarrow> tbl(idx (split (ch CHR ''='') (trim cap)) 0
                          \<mapsto> idx (split (ch CHR ''='') (trim cap)) 1))"
  by (simp add: parseLine_def Let_def split: option.splits)

lemma table_entry_kept:
  assumes "\<forall>l\<in>set lines. \<forall>cap. ARG_REGEX l = Some cap \<longrightarrow>
             idx (split (ch CHR ''='') (trim cap)) 0 \<noteq> k"
  shows "fst (collectImages tbl lines) k = tbl k"
  using assms
proof (induction lines arbitrary: tbl)
  case Nil
  show ?case by (simp add: collectImages_Nil)
next
  case (Cons l ls)
  from Cons.prems have "fst (parseLine tbl l) k = tbl k"
    by (auto simp: parseLine_table split: option.splits)
  moreover from Cons.prems
  have "fst (collectImages (fst (parseLine tbl l)) ls) k = fst (parseLine tbl l) k"
    by (intro Cons.IH) simp
  ultimately show ?case
    by (simp add: collectImages_Cons)
qed

text \<open>
  The platform of a reference is always a string: a match of \<^verbatim>\<open>PLATFORM_REGEX\<close> contains
  an equals sign, so its \<^verbatim>\<open>split('=')\<close> has an element at index 1.
\<close>

lemma split_not_Nil: "split sep s \<noteq> []"
  by (subst split.simps) (simp split: list.splits)

lemma matchAllPlatform_shape:
  "m \<in> set (matchAllPlatform s) \<Longrightarrow> \<exists>val. m = js ''--platform='' @ val"
proof (induction s rule: matchAllPlatform.induct)
  case 1
  then show ?case by simp
next
  case (2 c cs)
  show ?case
  proof (cases "matchPlatform (c # cs)")
    case None
    with 2 show ?thesis by simp
  next
    case (Some a)
    obtain m' rest where a: "a = (m', rest)" by (cases a)
    from Some a have "\<exists>val. m' = js ''--platform='' @ val"
      by (auto simp: matchPlatform_def Let_def split: if_splits)
    with 2 Some a show ?thesis by auto
  qed
qed

lemma split_platform_match:
  "idx (split (ch CHR ''='') (js ''--platform='' @ val)) 1 = Str (hd (split (ch CHR ''='') val))"
proof -
  have d: "dropWhile (\<lambda>c. c \<noteq> ch CHR ''='') (js ''--platform='' @ val) = ch CHR ''='' # val"
    by (simp add: js_def ch_def)
  obtain x xs where x: "split (ch CHR ''='') val = x # xs"
    using split_not_Nil [of "ch CHR ''=''" val] by (cases "split (ch CHR ''='') val") auto
  show ?thesis
    by (subst split.simps) (simp add: d x idx_def)
qed

lemma platform_is_string:
  assumes "snd (parseLine tbl line) = Some r"
  shows "\<exists>p. platform r = Str p"
proof -
  from assms obtain cap where c: "FROM_REGEX line = Some cap"
    using parseLine_Some by blast
  show ?thesis
  proof (cases "matchAllPlatform line")
    case Nil
    with assms c show ?thesis
      by (auto simp: parseLine_FROM split: if_splits)
  next
    case (Cons m ms)
    then have "m \<in> set (matchAllPlatform line)" by simp
    then obtain val where "m = js ''--platform='' @ val"
      using matchAllPlatform_shape by blast
    with assms c Cons show ?thesis
      using split_platform_match [of val]
      by (auto simp: parseLine_FROM split: if_splits)
  qed
qed

lemma matchAS_Some_form:
  assumes "matchAS s = Some rest"
  shows "\<exists>frag. s = frag @ rest \<and> aliasFragment frag \<and> (rest = [] \<or> isSpace (hd rest))"
proof -
  let ?ws1 = "takeWhile isSpace s"
  let ?afterWs = "dropWhile isSpace s"
  let ?kw = "take 2 ?afterWs"
  let ?ws2 = "takeWhile isSpace (drop 2 ?afterWs)"
  let ?afterAS = "dropWhile isSpace (drop 2 ?afterWs)"
  let ?ident = "takeWhile notSpace ?afterAS"
  from assms have w1: "?ws1 \<noteq> []"
    and kw: "?kw \<in> {js ''AS'', js ''As'', js ''aS'', js ''as''}"
    and w2: "?ws2 \<noteq> []"
    and id: "?ident \<noteq> []"
    and r: "rest = dropWhile notSpace ?afterAS"
    by (auto simp: matchAS_def Let_def split: if_splits)
  have "s = ?ws1 @ ?afterWs" by simp
  also have "?afterWs = ?kw @ drop 2 ?afterWs" by simp
  also have "drop 2 ?afterWs = ?ws2 @ ?afterAS" by simp
  also have "?afterAS = ?ident @ rest" unfolding r by simp
  finally have s: "s = (?ws1 @ ?kw @ ?ws2 @ ?ident) @ rest" by simp
  have a1: "\<forall>c\<in>set ?ws1. isSpace c"
    by (auto dest: set_takeWhileD)
  have a2: "\<forall>c\<in>set ?ws2. isSpace c"
    by (auto dest: set_takeWhileD)
  have a3: "\<forall>c\<in>set ?ident. \<not> isSpace c"
    by (auto dest: set_takeWhileD simp: notSpace_def)
  have f: "aliasFragment (?ws1 @ ?kw @ ?ws2 @ ?ident)"
    unfolding aliasFragment_def using w1 kw w2 id a1 a2 a3 by blast
  have e: "rest = [] \<or> isSpace (hd rest)"
  proof (cases rest)
    case Nil
    then show ?thesis by simp
  next
    case (Cons c cs)
    then have "\<not> notSpace (hd rest)"
      unfolding r by (metis hd_dropWhile list.distinct(1))
    then show ?thesis by (simp add: notSpace_def)
  qed
  from s f e show ?thesis by blast
qed

lemma matchAS_of_fragment:
  assumes "aliasFragment frag" and "rest = [] \<or> isSpace (hd rest)"
  shows "matchAS (frag @ rest) = Some rest"
proof -
  from assms(1) obtain ws1 kw ws2 ident
    where "frag = ws1 @ kw @ ws2 @ ident"
      and "ws1 \<noteq> []" "\<forall>c\<in>set ws1. isSpace c"
      and "kw \<in> {js ''AS'', js ''As'', js ''aS'', js ''as''}"
      and "ws2 \<noteq> []" "\<forall>c\<in>set ws2. isSpace c"
      and "ident \<noteq> []" "\<forall>c\<in>set ident. \<not> isSpace c"
    unfolding aliasFragment_def by blast
  then show ?thesis
    using matchAS_fragment [of ws1 kw ws2 ident rest] assms(2) by simp
qed

lemma aliasFragment_longer:
  assumes "aliasFragment frag" and "\<forall>c\<in>set tail_run. \<not> isSpace c"
  shows "aliasFragment (frag @ tail_run)"
proof -
  from assms(1) obtain ws1 kw ws2 ident
    where f: "frag = ws1 @ kw @ ws2 @ ident"
      and c: "ws1 \<noteq> []" "\<forall>c\<in>set ws1. isSpace c"
        "kw \<in> {js ''AS'', js ''As'', js ''aS'', js ''as''}"
        "ws2 \<noteq> []" "\<forall>c\<in>set ws2. isSpace c"
      and i: "ident \<noteq> []" "\<forall>c\<in>set ident. \<not> isSpace c"
    unfolding aliasFragment_def by blast
  from f have "frag @ tail_run = ws1 @ kw @ ws2 @ (ident @ tail_run)" by simp
  moreover from i assms(2) have "ident @ tail_run \<noteq> []" "\<forall>c\<in>set (ident @ tail_run). \<not> isSpace c"
    by auto
  ultimately show ?thesis
    unfolding aliasFragment_def using c by blast
qed

lemma startsWithAlias_iff_match: "startsWithAlias s \<longleftrightarrow> matchAS s \<noteq> None"
proof
  assume "startsWithAlias s"
  then obtain frag rest where s: "s = frag @ rest" and f: "aliasFragment frag"
    unfolding startsWithAlias_def by blast
  let ?run = "takeWhile notSpace rest"
  let ?rest = "dropWhile notSpace rest"
  have "\<forall>c\<in>set ?run. \<not> isSpace c"
    by (auto dest: set_takeWhileD simp: notSpace_def)
  with f have f': "aliasFragment (frag @ ?run)"
    by (rule aliasFragment_longer)
  have e: "?rest = [] \<or> isSpace (hd ?rest)"
  proof (cases ?rest)
    case Nil
    then show ?thesis by simp
  next
    case (Cons c cs)
    then have "\<not> notSpace (hd ?rest)"
      by (metis hd_dropWhile list.distinct(1))
    then show ?thesis by (simp add: notSpace_def)
  qed
  have "s = (frag @ ?run) @ ?rest"
    using s by simp
  then have "matchAS s = Some ?rest"
    using matchAS_of_fragment [OF f' e] by simp
  then show "matchAS s \<noteq> None" by simp
next
  assume "matchAS s \<noteq> None"
  then obtain rest where "matchAS s = Some rest" by auto
  then show "startsWithAlias s"
    unfolding startsWithAlias_def using matchAS_Some_form by blast
qed

lemma example_manifest_images:
  "snd (collectImages Map.empty (split 0x000A (js ''FROM alpine'')))
     = [\<lparr>image = js ''alpine'', platform = Str []\<rparr>]"
  by code_simp

section \<open>Failures of the orchestrator\<close>

text \<open>
  C6. When the manifest cannot be read, the top-level entry point fails with the error of
  the read, the display has been given the error marker exactly once, and nothing else
  has happened: no progress report and no call of the analysis service.
\<close>

theorem read_failure_surfaces:
  assumes "readFileSync e filePath = Inl err"
  shows "executeDockerImageAnalysis e filePath =
           ([UpdateCurrentWebviewPanel (js ''error'')], Inl err)"
  using assms
  by (simp add: executeDockerImageAnalysis_def newDockerImageAnalysis_def parseTxtDoc_def)

theorem read_failure_surfaces_witness:
  "readFileSync (exampleEnv (Inl 2) (Inr (js ''ok''))) (js ''Dockerfile'') = Inl 2
   \<and> executeDockerImageAnalysis (exampleEnv (Inl 2) (Inr (js ''ok''))) (js ''Dockerfile'')
       = ([UpdateCurrentWebviewPanel (js ''error'')], Inl 2)"
proof -
  have h: "readFileSync (exampleEnv (Inl 2) (Inr (js ''ok''))) (js ''Dockerfile'') = Inl 2"
    by (simp add: exampleEnv_def)
  show ?thesis using h read_failure_surfaces [OF h] by simp
qed

section \<open>A successful run\<close>

text \<open>
  C8. When the manifest is read and the analysis service resolves with a payload, the
  collaborators see exactly five events in this order: the report of the analyzing phase,
  the call of the service with the collected images and the options, the report of the
  generating phase, the display of the payload, and the report of the success phase. The
  top-level entry point returns the payload.
\<close>

theorem successful_run_trace:
  assumes "readFileSync e filePath = Inr contentString"
    and "imageAnalysisService e (snd (collectImages Map.empty (split 0x000A contentString)))
           (initialOptions (globalConfig e)) = Inr resp"
  shows "executeDockerImageAnalysis e filePath =
           ([Report WIN_ANALYZING_DEPENDENCIES,
             ImageAnalysisService (snd (collectImages Map.empty (split 0x000A contentString)))
               (initialOptions (globalConfig e)),
             Report WIN_GENERATING_DEPENDENCIES,
             UpdateCurrentWebviewPanel resp,
             Report WIN_SUCCESS_DEPENDENCY_ANALYSIS],
            Inr resp)"
proof -
  obtain args1 images1
    where c: "collectImages Map.empty (split 0x000A contentString) = (args1, images1)"
    by (cases "collectImages Map.empty (split 0x000A contentString)")
  with assms show ?thesis
    by (simp add: executeDockerImageAnalysis_def newDockerImageAnalysis_def parseTxtDoc_def
        runImageAnalysis_def progressTask_def)
qed

theorem successful_run_trace_witness:
  "readFileSync (exampleEnv (Inr (js ''FROM alpine'')) (Inr (js ''report''))) (js ''Dockerfile'')
     = Inr (js ''FROM alpine'')
   \<and> imageAnalysisService (exampleEnv (Inr (js ''FROM alpine'')) (Inr (js ''report'')))
        [\<lparr>image = js ''alpine'', platform = Str []\<rparr>] (initialOptions emptyConfig)
     = Inr (js ''report'')
   \<and> executeDockerImageAnalysis (exampleEnv (Inr (js ''FROM alpine'')) (Inr (js ''report'')))
        (js ''Dockerfile'')
     = ([Report WIN_ANALYZING_DEPENDENCIES,
         ImageAnalysisService [\<lparr>image = js ''alpine'', platform = Str []\<rparr>]
           (initialOptions emptyConfig),
         Report WIN_GENERATING_DEPENDENCIES,
         UpdateCurrentWebviewPanel (js ''report''),
         Report WIN_SUCCESS_DEPENDENCY_ANALYSIS],
        Inr (js ''report''))"
proof -
  let ?e = "exampleEnv (Inr (js ''FROM alpine'')) (Inr (js ''report''))"
  have r: "readFileSync ?e (js ''Dockerfile'') = Inr (js ''FROM alpine'')"
    by (simp add: exampleEnv_def)
  have g: "globalConfig ?e = emptyConfig"
    by (simp add: exampleEnv_def)
  have a: "imageAnalysisService ?e
             (snd (collectImages Map.empty (split 0x000A (js ''FROM alpine''))))
             (initialOptions (globalConfig ?e)) = Inr (js ''report'')"
    by (simp add: exampleEnv_def)
  have a': "imageAnalysisService ?e [\<lparr>image = js ''alpine'', platform = Str []\<rparr>]
              (initialOptions emptyConfig) = Inr (js ''report'')"
    by (simp add: exampleEnv_def)
  show ?thesis
    using r a' successful_run_trace [OF r a]
    by (simp only: example_manifest_images g simp_thms)
qed

section \<open>A rejected analysis\<close>

text \<open>
  C2 as stated fails: when the analysis service rejects, the \<^verbatim>\<open>catch\<close> of
  \<^verbatim>\<open>runImageAnalysis\<close> gives the error marker to the display before it rethrows. Here
  the manifest is the one line \<^verbatim>\<open>FROM alpine\<close> and the service rejects with 7.
\<close>

theorem analysis_failure_display_counterexample:
  "imageAnalysisService (exampleEnv (Inr (js ''FROM alpine'')) (Inl 7))
     [\<lparr>image = js ''alpine'', platform = Str []\<rparr>] (initialOptions emptyConfig) = Inl 7
   \<and> snd (executeDockerImageAnalysis (exampleEnv (Inr (js ''FROM alpine'')) (Inl 7))
            (js ''Dockerfile'')) = Inl 7
   \<and> UpdateCurrentWebviewPanel (js ''error'')
       \<in> set (fst (executeDockerImageAnalysis (exampleEnv (Inr (js ''FROM alpine'')) (Inl 7))
                     (js ''Dockerfile'')))"
  by code_simp

text \<open>
  C2, amended. When the manifest is read and the analysis service rejects, the
  collaborators see exactly four events in this order: the report of the analyzing phase,
  the call of the service, one report of the failure phase, and one display of the error
  marker. The top-level entry point fails with the error of the service.
\<close>

theorem analysis_failure_trace:
  assumes "readFileSync e filePath = Inr contentString"
    and "imageAnalysisService e (snd (collectImages Map.empty (split 0x000A contentString)))
           (initialOptions (globalConfig e)) = Inl err"
  shows "executeDockerImageAnalysis e filePath =
           ([Report WIN_ANALYZING_DEPENDENCIES,
             ImageAnalysisService (snd (collectImages Map.empty (split 0x000A contentString)))
               (initialOptions (globalConfig e)),
             Report WIN_FAILURE_DEPENDENCY_ANALYSIS,
             UpdateCurrentWebviewPanel (js ''error'')],
            Inl err)"
proof -
  obtain args1 images1
    where c: "collectImages Map.empty (split 0x000A contentString) = (args1, images1)"
    by (cases "collectImages Map.empty (split 0x000A contentString)")
  with assms show ?thesis
    by (simp add: executeDockerImageAnalysis_def newDockerImageAnalysis_def parseTxtDoc_def
        runImageAnalysis_def progressTask_def)
qed

theorem analysis_failure_trace_witness:
  "readFileSync (exampleEnv (Inr (js ''FROM alpine'')) (Inl 7)) (js ''Dockerfile'')
     = Inr (js ''FROM alpine'')
   \<and> imageAnalysisService (exampleEnv (Inr (js ''FROM alpine'')) (Inl 7))
        [\<lparr>image = js ''alpine'', platform = Str []\<rparr>] (initialOptions emptyConfig)
     = Inl 7
   \<and> executeDockerImageAnalysis (exampleEnv (Inr (js ''FROM alpine'')) (Inl 7))
        (js ''Dockerfile'')
     = ([Report WIN_ANALYZING_DEPENDENCIES,
         ImageAnalysisService [\<lparr>image = js ''alpine'', platform = Str []\<rparr>]
           (initialOptions emptyConfig),
         Report WIN_FAILURE_DEPENDENCY_ANALYSIS,
         UpdateCurrentWebviewPanel (js ''error'')],
        Inl 7)"
proof -
  let ?e = "exampleEnv (Inr (js ''FROM alpine'')) (Inl 7)"
  have r: "readFileSync ?e (js ''Dockerfile'') = Inr (js ''FROM alpine'')"
    by (simp add: exampleEnv_def)
  have g: "globalConfig ?e = emptyConfig"
    by (simp add: exampleEnv_def)
  have a: "imageAnalysisService ?e
             (snd (collectImages Map.empty (split 0x000A (js ''FROM alpine''))))
             (initialOptions (globalConfig ?e)) = Inl 7"
    by (simp add: exampleEnv_def)
  have a': "imageAnalysisService ?e [\<lparr>image = js ''alpine'', platform = Str []\<rparr>]
              (initialOptions emptyConfig) = Inl 7"
    by (simp add: exampleEnv_def)
  show ?thesis
    using r a' analysis_failure_trace [OF r a]
    by (simp only: example_manifest_images g simp_thms)
qed

section \<open>One directive per line\<close>

text \<open>
  C10. No line matches both \<^verbatim>\<open>ARG_REGEX\<close> and \<^verbatim>\<open>FROM_REGEX\<close>: after the leading
  white space one needs the letter A and the other the letter F. So a line that produces
  a reference does not match \<^verbatim>\<open>ARG_REGEX\<close> and leaves the argument table as it was, and
  a line that matches \<^verbatim>\<open>ARG_REGEX\<close> produces no reference.
\<close>

theorem ARG_and_FROM_never_both:
  "(ARG_REGEX line = None \<or> FROM_REGEX line = None)
   \<and> (snd (parseLine tbl line) \<noteq> None \<longrightarrow> ARG_REGEX line = None \<and> fst (parseLine tbl line) = tbl)
   \<and> (ARG_REGEX line \<noteq> None \<longrightarrow> snd (parseLine tbl line) = None)"
proof -
  have a: "ARG_REGEX line = None \<or> FROM_REGEX line = None"
    using FROM_ARG_exclusive [of line] by (cases "FROM_REGEX line") auto
  have b: "ARG_REGEX line = None \<and> fst (parseLine tbl line) = tbl"
    if "snd (parseLine tbl line) \<noteq> None"
  proof -
    from that obtain r where "snd (parseLine tbl line) = Some r" by auto
    then obtain cap where "FROM_REGEX line = Some cap" and "fst (parseLine tbl line) = tbl"
      using parseLine_Some by blast
    then show ?thesis by (simp add: FROM_ARG_exclusive)
  qed
  have c: "snd (parseLine tbl line) = None" if "ARG_REGEX line \<noteq> None"
    using that a by (auto simp: parseLine_no_FROM)
  from a b c show ?thesis by blast
qed

theorem ARG_and_FROM_never_both_witness:
  "ARG_REGEX (js ''ARG V=1'') \<noteq> None
   \<and> FROM_REGEX (js ''ARG V=1'') = None
   \<and> snd (parseLine Map.empty (js ''ARG V=1'')) = None
   \<and> snd (parseLine Map.empty (js ''FROM alpine'')) \<noteq> None
   \<and> ARG_REGEX (js ''FROM alpine'') = None
   \<and> fst (parseLine Map.empty (js ''FROM alpine'')) = Map.empty"
proof -
  have a: "ARG_REGEX (js ''ARG V=1'') \<noteq> None"
    by code_simp
  have f: "snd (parseLine Map.empty (js ''FROM alpine'')) \<noteq> None"
    by code_simp
  show ?thesis
    using a f ARG_and_FROM_never_both [of "js ''ARG V=1''" Map.empty]
      ARG_and_FROM_never_both [of "js ''FROM alpine''" Map.empty]
    by auto
qed

section \<open>The image of a reference\<close>

text \<open>
  C5. No reference in the output of the collector has the image \<^verbatim>\<open>scratch\<close>, whatever the
  lines and the argument table at the start. For a single line: when \<^verbatim>\<open>FROM_REGEX\<close>
  matches and the captured text, after substitution, removal of the platform qualifiers
  and of the aliases and trimming, is \<^verbatim>\<open>scratch\<close>, the line produces no reference and
  leaves the argument table as it was.
\<close>

theorem scratch_never_collected:
  "(\<forall>r \<in> set (snd (collectImages tbl lines)). image r \<noteq> js ''scratch'')
   \<and> (FROM_REGEX line = Some cap
        \<and> trim (removeAS (removePlatform (replaceArgsInString tbl cap))) = js ''scratch''
      \<longrightarrow> parseLine tbl line = (tbl, None))"
proof -
  have "image r \<noteq> js ''scratch''" if "r \<in> set (snd (collectImages tbl lines))" for r
  proof -
    from that obtain t l where "snd (parseLine t l) = Some r"
      using collected_image_resolved by blast
    then show ?thesis
      using parseLine_Some by blast
  qed
  then show ?thesis
    by (auto simp: parseLine_FROM)
qed

theorem scratch_never_collected_witness:
  "snd (collectImages Map.empty [js ''FROM scratch'', js ''FROM alpine''])
     = [\<lparr>image = js ''alpine'', platform = Str []\<rparr>]
   \<and> js ''alpine'' \<noteq> js ''scratch''
   \<and> FROM_REGEX (js ''  FROM --platform=linux/amd64 scratch AS base  '')
       = Some (js ''--platform=linux/amd64 scratch AS base  '')
   \<and> trim (removeAS (removePlatform (replaceArgsInString Map.empty
         (js ''--platform=linux/amd64 scratch AS base  '')))) = js ''scratch''
   \<and> parseLine Map.empty (js ''  FROM --platform=linux/amd64 scratch AS base  '')
       = (Map.empty, None)"
proof -
  have c: "snd (collectImages Map.empty [js ''FROM scratch'', js ''FROM alpine''])
             = [\<lparr>image = js ''alpine'', platform = Str []\<rparr>]"
    by code_simp
  have f: "FROM_REGEX (js ''  FROM --platform=linux/amd64 scratch AS base  '')
             = Some (js ''--platform=linux/amd64 scratch AS base  '')"
    by code_simp
  have t: "trim (removeAS (removePlatform (replaceArgsInString Map.empty
             (js ''--platform=linux/amd64 scratch AS base  '')))) = js ''scratch''"
    by code_simp
  show ?thesis
    using c f t
      scratch_never_collected [of Map.empty "[js ''FROM scratch'', js ''FROM alpine'']"
        "js ''  FROM --platform=linux/amd64 scratch AS base  ''"
        "js ''--platform=linux/amd64 scratch AS base  ''"]
    by simp
qed

text \<open>
  C4 as stated fails: the line \<^verbatim>\<open>FROM ${UNSET}\<close>, read with an empty argument table,
  produces a reference whose image is the empty string.
\<close>

theorem empty_image_counterexample:
  "Map.empty (Str (js ''UNSET'')) = None
   \<and> snd (parseLine Map.empty (js ''FROM ${UNSET}'')) = Some \<lparr>image = [], platform = Str []\<rparr>"
  by code_simp

text \<open>
  C4, amended. The image of every reference the parser produces is the text captured by
  \<^verbatim>\<open>FROM_REGEX\<close> after substitution (an unknown variable gives the empty string), removal
  of the platform qualifiers and of the aliases, and trimming; trimming it again changes
  nothing. That text can be empty, and then a reference with the empty image is produced.
\<close>

theorem image_is_resolved_text:
  "(snd (parseLine tbl line) = Some r \<longrightarrow>
      (\<exists>cap. FROM_REGEX line = Some cap
         \<and> image r = trim (removeAS (removePlatform (replaceArgsInString tbl cap))))
      \<and> trim (image r) = image r)
   \<and> (FROM_REGEX line = Some cap'
        \<and> trim (removeAS (removePlatform (replaceArgsInString tbl cap'))) = []
      \<longrightarrow> (\<exists>p. snd (parseLine tbl line) = Some \<lparr>image = [], platform = p\<rparr>))"
proof -
  have a: "(\<exists>cap. FROM_REGEX line = Some cap
              \<and> image r = trim (removeAS (removePlatform (replaceArgsInString tbl cap))))
           \<and> trim (image r) = image r"
    if "snd (parseLine tbl line) = Some r"
  proof -
    from that obtain cap where c: "FROM_REGEX line = Some cap"
      and i: "image r = trim (removeAS (removePlatform (replaceArgsInString tbl cap)))"
      using parseLine_Some by blast
    from i have "trim (image r) = image r"
      by (simp add: trim_idem)
    with c i show ?thesis by blast
  qed
  have b: "\<exists>p. snd (parseLine tbl line) = Some \<lparr>image = [], platform = p\<rparr>"
    if "FROM_REGEX line = Some cap'"
      and "trim (removeAS (removePlatform (replaceArgsInString tbl cap'))) = []"
    using that scratch_not_empty by (simp add: parseLine_FROM)
  from a b show ?thesis by blast
qed

theorem image_is_resolved_text_witness:
  "snd (parseLine Map.empty (js ''FROM ${UNSET}'')) = Some \<lparr>image = [], platform = Str []\<rparr>
   \<and> FROM_REGEX (js ''FROM ${UNSET}'') = Some (js ''${UNSET}'')
   \<and> trim (removeAS (removePlatform (replaceArgsInString Map.empty (js ''${UNSET}'')))) = []
   \<and> trim (image \<lparr>image = [], platform = Str []\<rparr>) = image \<lparr>image = [], platform = Str []\<rparr>"
proof -
  have p: "snd (parseLine Map.empty (js ''FROM ${UNSET}''))
             = Some \<lparr>image = [], platform = Str []\<rparr>"
    by code_simp
  have f: "FROM_REGEX (js ''FROM ${UNSET}'') = Some (js ''${UNSET}'')"
    by code_simp
  have t: "trim (removeAS (removePlatform (replaceArgsInString Map.empty (js ''${UNSET}'')))) = []"
    by code_simp
  show ?thesis
    using p f t
      image_is_resolved_text [of Map.empty "js ''FROM ${UNSET}''"
        "\<lparr>image = [], platform = Str []\<rparr>" "js ''${UNSET}''"]
    by blast
qed

section \<open>The output of the collector\<close>

text \<open>
  C1. The four lines of the example give exactly the two references of the spec, from the
  list of lines and from the text split at its line feeds. For every list of lines and
  every starting table, the output is the list of the references that the lines produce,
  one for each line that produces one, in the order of the lines and with nothing removed
  (so duplicates stay); each line is read with the table left by the lines before it. A
  line produces a reference exactly when \<^verbatim>\<open>FROM_REGEX\<close> matches it and the resolved
  image is not \<^verbatim>\<open>scratch\<close>.
\<close>

theorem collector_in_document_order:
  "snd (collectImages Map.empty
          [js ''ARG VER=3.18'',
           js ''FROM --platform=linux/arm64 alpine:${VER} AS base'',
           js ''FROM scratch'',
           js ''FROM ubuntu:22.04''])
     = [\<lparr>image = js ''alpine:3.18'', platform = Str (js ''linux/arm64'')\<rparr>,
        \<lparr>image = js ''ubuntu:22.04'', platform = Str []\<rparr>]
   \<and> split 0x000A
         (js ''ARG VER=3.18'' @ [0x000A]
            @ js ''FROM --platform=linux/arm64 alpine:${VER} AS base'' @ [0x000A]
            @ js ''FROM scratch'' @ [0x000A]
            @ js ''FROM ubuntu:22.04'')
     = [js ''ARG VER=3.18'',
        js ''FROM --platform=linux/arm64 alpine:${VER} AS base'',
        js ''FROM scratch'',
        js ''FROM ubuntu:22.04'']
   \<and> snd (collectImages tbl lines)
     = List.map_filter
         (\<lambda>i. snd (parseLine (fst (collectImages tbl (take i lines))) (lines ! i)))
         [0..<length lines]
   \<and> (snd (parseLine tbl line) \<noteq> None \<longleftrightarrow>
        (\<exists>cap. FROM_REGEX line = Some cap
            \<and> trim (removeAS (removePlatform (replaceArgsInString tbl cap))) \<noteq> js ''scratch''))"
proof -
  have a: "snd (collectImages Map.empty
                  [js ''ARG VER=3.18'',
                   js ''FROM --platform=linux/arm64 alpine:${VER} AS base'',
                   js ''FROM scratch'',
                   js ''FROM ubuntu:22.04''])
             = [\<lparr>image = js ''alpine:3.18'', platform = Str (js ''linux/arm64'')\<rparr>,
                \<lparr>image = js ''ubuntu:22.04'', platform = Str []\<rparr>]"
    by code_simp
  have b: "split 0x000A
             (js ''ARG VER=3.18'' @ [0x000A]
                @ js ''FROM --platform=linux/arm64 alpine:${VER} AS base'' @ [0x000A]
                @ js ''FROM scratch'' @ [0x000A]
                @ js ''FROM ubuntu:22.04'')
             = [js ''ARG VER=3.18'',
                js ''FROM --platform=linux/arm64 alpine:${VER} AS base'',
                js ''FROM scratch'',
                js ''FROM ubuntu:22.04'']"
    by code_simp
  show ?thesis
    using a b collectImages_by_line [of tbl lines] parseLine_yields_iff [of tbl line]
    by (simp only: simp_thms)
qed

theorem collector_in_document_order_witness:
  "snd (collectImages Map.empty [js ''FROM alpine'', js ''RUN true'', js ''FROM alpine''])
     = [\<lparr>image = js ''alpine'', platform = Str []\<rparr>, \<lparr>image = js ''alpine'', platform = Str []\<rparr>]
   \<and> List.map_filter
         (\<lambda>i. snd (parseLine
                 (fst (collectImages Map.empty
                         (take i [js ''FROM alpine'', js ''RUN true'', js ''FROM alpine''])))
                 ([js ''FROM alpine'', js ''RUN true'', js ''FROM alpine''] ! i)))
         [0..<length [js ''FROM alpine'', js ''RUN true'', js ''FROM alpine'']]
     = [\<lparr>image = js ''alpine'', platform = Str []\<rparr>, \<lparr>image = js ''alpine'', platform = Str []\<rparr>]
   \<and> snd (parseLine Map.empty (js ''FROM alpine'')) \<noteq> None
   \<and> FROM_REGEX (js ''FROM alpine'') = Some (js ''alpine'')"
proof -
  have c: "snd (collectImages Map.empty [js ''FROM alpine'', js ''RUN true'', js ''FROM alpine''])
             = [\<lparr>image = js ''alpine'', platform = Str []\<rparr>,
                \<lparr>image = js ''alpine'', platform = Str []\<rparr>]"
    by code_simp
  have f: "FROM_REGEX (js ''FROM alpine'') = Some (js ''alpine'')"
    by code_simp
  have t: "trim (removeAS (removePlatform (replaceArgsInString Map.empty (js ''alpine''))))
             \<noteq> js ''scratch''"
    by code_simp
  from collector_in_document_order
         [of Map.empty "[js ''FROM alpine'', js ''RUN true'', js ''FROM alpine'']"
            "js ''FROM alpine''"]
  have m: "snd (collectImages Map.empty [js ''FROM alpine'', js ''RUN true'', js ''FROM alpine''])
             = List.map_filter
                 (\<lambda>i. snd (parseLine
                         (fst (collectImages Map.empty
                                 (take i [js ''FROM alpine'', js ''RUN true'', js ''FROM alpine''])))
                         ([js ''FROM alpine'', js ''RUN true'', js ''FROM alpine''] ! i)))
                 [0..<length [js ''FROM alpine'', js ''RUN true'', js ''FROM alpine'']]"
    and y: "snd (parseLine Map.empty (js ''FROM alpine'')) \<noteq> None \<longleftrightarrow>
              (\<exists>cap. FROM_REGEX (js ''FROM alpine'') = Some cap
                  \<and> trim (removeAS (removePlatform (replaceArgsInString Map.empty cap)))
                      \<noteq> js ''scratch'')"
    by blast+
  from y f t have "snd (parseLine Map.empty (js ''FROM alpine'')) \<noteq> None"
    by blast
  with c f m show ?thesis
    by (simp only: simp_thms)
qed

section \<open>The argument table at a \<open>FROM\<close> line\<close>

text \<open>
  C7. The references produced by the lines above a point of the manifest do not depend on
  the lines below it: the output for the whole manifest is the output for the lines above,
  followed by the output for the lines below read with the table the lines above left.
  That table depends on the \<^verbatim>\<open>ARG\<close> lines above only. Wherever the line
  \<^verbatim>\<open>ARG V=foo\<close> is followed by the line \<^verbatim>\<open>FROM base:${V}\<close>, at once or after lines of
  which none is an \<^verbatim>\<open>ARG\<close> line for the name \<^verbatim>\<open>V\<close>, the second produces the reference
  with image \<^verbatim>\<open>base:foo\<close> and an empty platform.
\<close>

theorem substitution_uses_lines_above:
  "snd (collectImages tbl (earlier @ later))
     = snd (collectImages tbl earlier) @ snd (collectImages (fst (collectImages tbl earlier)) later)
   \<and> fst (collectImages tbl earlier)
     = fst (collectImages tbl (filter (\<lambda>l. ARG_REGEX l \<noteq> None) earlier))
   \<and> ((\<forall>l\<in>set between. \<forall>cap. ARG_REGEX l = Some cap \<longrightarrow>
          idx (split (ch CHR ''='') (trim cap)) 0 \<noteq> Str (js ''V''))
      \<longrightarrow> snd (collectImages tbl
                 (earlier @ [js ''ARG V=foo''] @ between @ [js ''FROM base:${V}''] @ later))
          = snd (collectImages tbl earlier)
            @ snd (collectImages
                     ((fst (collectImages tbl earlier))(Str (js ''V'') \<mapsto> Str (js ''foo'')))
                     between)
            @ [\<lparr>image = js ''base:foo'', platform = Str []\<rparr>]
            @ snd (collectImages
                     (fst (collectImages
                             ((fst (collectImages tbl earlier))(Str (js ''V'') \<mapsto> Str (js ''foo'')))
                             between))
                     later))"
proof -
  let ?t = "(fst (collectImages tbl earlier))(Str (js ''V'') \<mapsto> Str (js ''foo''))"
  let ?u = "fst (collectImages ?t between)"
  have "snd (collectImages tbl
               (earlier @ [js ''ARG V=foo''] @ between @ [js ''FROM base:${V}''] @ later))
          = snd (collectImages tbl earlier) @ snd (collectImages ?t between)
            @ [\<lparr>image = js ''base:foo'', platform = Str []\<rparr>] @ snd (collectImages ?u later)"
    if "\<forall>l\<in>set between. \<forall>cap. ARG_REGEX l = Some cap \<longrightarrow>
          idx (split (ch CHR ''='') (trim cap)) 0 \<noteq> Str (js ''V'')"
  proof -
    from that have "?u (Str (js ''V'')) = ?t (Str (js ''V''))"
      by (rule table_entry_kept)
    then have v: "?u (Str (js ''V'')) = Some (Str (js ''foo''))"
      by simp
    have f: "collectImages ?u ([js ''FROM base:${V}''] @ later)
               = (fst (collectImages ?u later),
                  [\<lparr>image = js ''base:foo'', platform = Str []\<rparr>] @ snd (collectImages ?u later))"
      by (simp add: collectImages_Cons FROM_base_V [of ?u, OF v])
    have a: "collectImages (fst (collectImages tbl earlier))
               ([js ''ARG V=foo''] @ between @ [js ''FROM base:${V}''] @ later)
             = (fst (collectImages ?t (between @ [js ''FROM base:${V}''] @ later)),
                snd (collectImages ?t (between @ [js ''FROM base:${V}''] @ later)))"
      by (simp add: collectImages_Cons ARG_V_foo)
    have b: "snd (collectImages ?t (between @ [js ''FROM base:${V}''] @ later))
               = snd (collectImages ?t between)
                 @ snd (collectImages ?u ([js ''FROM base:${V}''] @ later))"
      by (simp add: collectImages_append [of ?t between])
    show ?thesis
      unfolding collectImages_append [of tbl earlier] a b f by simp
  qed
  then show ?thesis
    using table_from_ARG_lines [of tbl earlier] collectImages_append [of tbl earlier later]
    by simp
qed

theorem substitution_uses_lines_above_witness:
  "snd (collectImages Map.empty ([js ''FROM base:${V}''] @ [js ''ARG V=late'']))
     = [\<lparr>image = js ''base:'', platform = Str []\<rparr>]
   \<and> snd (collectImages Map.empty [js ''FROM base:${V}''])
     = [\<lparr>image = js ''base:'', platform = Str []\<rparr>]
   \<and> snd (collectImages (fst (collectImages Map.empty [js ''FROM base:${V}''])) [js ''ARG V=late''])
     = []
   \<and> ARG_REGEX (js ''ARG W=bar'') = Some (js ''W=bar'')
   \<and> idx (split (ch CHR ''='') (trim (js ''W=bar''))) 0 \<noteq> Str (js ''V'')
   \<and> snd (collectImages Map.empty
            ([js ''FROM base:${V}''] @ [js ''ARG V=foo''] @ [js ''ARG W=bar'']
               @ [js ''FROM base:${V}''] @ [js ''ARG V=late'']))
     = [\<lparr>image = js ''base:'', platform = Str []\<rparr>,
        \<lparr>image = js ''base:foo'', platform = Str []\<rparr>]"
proof -
  let ?t = "(fst (collectImages Map.empty [js ''FROM base:${V}'']))(Str (js ''V'') \<mapsto> Str (js ''foo''))"
  have a: "snd (collectImages Map.empty [js ''FROM base:${V}''])
             = [\<lparr>image = js ''base:'', platform = Str []\<rparr>]"
    by code_simp
  have b: "snd (collectImages (fst (collectImages Map.empty [js ''FROM base:${V}'']))
                  [js ''ARG V=late'']) = []"
    by code_simp
  have r: "ARG_REGEX (js ''ARG W=bar'') = Some (js ''W=bar'')"
    by code_simp
  have k: "idx (split (ch CHR ''='') (trim (js ''W=bar''))) 0 \<noteq> Str (js ''V'')"
    by code_simp
  have h: "\<forall>l\<in>set [js ''ARG W=bar'']. \<forall>cap. ARG_REGEX l = Some cap \<longrightarrow>
             idx (split (ch CHR ''='') (trim cap)) 0 \<noteq> Str (js ''V'')"
    using r k by simp
  have fw: "FROM_REGEX (js ''ARG W=bar'') = None"
    by code_simp
  have fl: "FROM_REGEX (js ''ARG V=late'') = None"
    by code_simp
  have m: "snd (collectImages ?t [js ''ARG W=bar'']) = []"
    by (simp add: collectImages_Cons collectImages_Nil parseLine_no_FROM [OF fw])
  have l: "snd (collectImages (fst (collectImages ?t [js ''ARG W=bar''])) [js ''ARG V=late'']) = []"
    by (simp add: collectImages_Cons collectImages_Nil parseLine_no_FROM [OF fl])
  show ?thesis
    using a b r k m l h
      substitution_uses_lines_above [of Map.empty "[js ''FROM base:${V}'']" "[js ''ARG V=late'']"
        "[js ''ARG W=bar'']"]
    by simp
qed

section \<open>The value of an \<open>ARG\<close> line\<close>

text \<open>
  C3 at the line \<^verbatim>\<open>ARG V=a=b\<close>: \<^verbatim>\<open>split('=')\<close> cuts at every equals sign and the source
  stores the second piece, so the table maps \<^verbatim>\<open>V\<close> to \<^verbatim>\<open>a\<close> and not to \<^verbatim>\<open>a=b\<close>, and a
  later \<^verbatim>\<open>FROM img:${V}\<close> gives the image \<^verbatim>\<open>img:a\<close>.
\<close>

theorem ARG_value_cut_at_second_equals:
  "split (ch CHR ''='') (js ''V=a=b'') = [js ''V'', js ''a'', js ''b'']
   \<and> fst (parseLine Map.empty (js ''ARG V=a=b'')) (Str (js ''V'')) = Some (Str (js ''a''))
   \<and> Str (js ''a'') \<noteq> Str (js ''a=b'')
   \<and> snd (collectImages Map.empty [js ''ARG V=a=b'', js ''FROM img:${V}''])
       = [\<lparr>image = js ''img:a'', platform = Str []\<rparr>]"
  by code_simp

section \<open>Removal of build-stage aliases\<close>

text \<open>
  C9 as stated fails: in \<^verbatim>\<open>FROM repo AS x y\<close> the fragment \<^verbatim>\<open> AS x\<close> is not at the end,
  and it is removed all the same, so the image is \<^verbatim>\<open>repo y\<close> and not \<^verbatim>\<open>repo AS x y\<close>.
\<close>

theorem alias_in_the_middle_counterexample:
  "snd (parseLine Map.empty (js ''FROM repo AS x y''))
     = Some \<lparr>image = js ''repo y'', platform = Str []\<rparr>
   \<and> js ''repo y'' \<noteq> js ''repo AS x y''"
  by code_simp

text \<open>
  C9, amended. Alias removal is not restricted to a trailing alias: \<^verbatim>\<open>AS_REGEX\<close> is
  global and has no anchor, so removal scans the text from the left. A fragment is a
  non-empty run of white space, the letters A and S, each in either case, a non-empty run
  of white space and a non-empty run of characters that are not white space. When the text
  is a part in which no fragment begins at any position, then a fragment, then a rest that
  is empty or begins with white space (so the identifier of the fragment is as long as it
  can be), the result is that first part unchanged followed by the result of removal on
  the rest: the leftmost fragment is deleted wherever it stands, and the scan goes on
  after it. A fragment that overlaps a deleted one is therefore not deleted itself:
  \<^verbatim>\<open>img AS AS x y\<close> becomes \<^verbatim>\<open>img x y\<close>. A text in which no fragment begins at any
  position is left unchanged, and \<^verbatim>\<open>repo AS x y\<close> becomes \<^verbatim>\<open>repo y\<close>.
\<close>

theorem alias_removed_wherever_it_stands:
  assumes "\<forall>i<length pre. \<not> startsWithAlias (drop i (pre @ frag @ rest))"
    and "aliasFragment frag"
    and "rest = [] \<or> isSpace (hd rest)"
  shows "removeAS (pre @ frag @ rest) = pre @ removeAS rest
         \<and> ((\<forall>i<length s. \<not> startsWithAlias (drop i s)) \<longrightarrow> removeAS s = s)
         \<and> removeAS (js ''repo AS x y'') = js ''repo y''
         \<and> removeAS (js ''img AS AS x y'') = js ''img x y''"
proof -
  have m: "matchAS (frag @ rest) = Some rest"
    using assms(2,3) by (rule matchAS_of_fragment)
  then have "frag @ rest \<noteq> []"
    by (auto simp: matchAS_def)
  then obtain c cs where "frag @ rest = c # cs"
    by (cases "frag @ rest") auto
  with m have a: "removeAS (frag @ rest) = removeAS rest"
    by simp
  from assms(1) have "\<forall>i<length pre. matchAS (drop i (pre @ frag @ rest)) = None"
    by (simp add: startsWithAlias_iff_match)
  then have b: "removeAS (pre @ frag @ rest) = pre @ removeAS (frag @ rest)"
    by (rule removeAS_keeps_prefix)
  have c: "removeAS s = s" if "\<forall>i<length s. \<not> startsWithAlias (drop i s)"
  proof -
    from that have "\<forall>i<length s. matchAS (drop i (s @ [])) = None"
      by (simp add: startsWithAlias_iff_match)
    then have "removeAS (s @ []) = s @ removeAS []"
      by (rule removeAS_keeps_prefix)
    then show ?thesis by simp
  qed
  have d: "removeAS (js ''repo AS x y'') = js ''repo y''"
    by code_simp
  have e: "removeAS (js ''img AS AS x y'') = js ''img x y''"
    by code_simp
  from a b c d e show ?thesis by simp
qed

theorem alias_removed_wherever_it_stands_witness:
  "\<not> startsWithAlias (js ''repo AS x y'')
   \<and> \<not> startsWithAlias (js ''epo AS x y'')
   \<and> \<not> startsWithAlias (js ''po AS x y'')
   \<and> \<not> startsWithAlias (js ''o AS x y'')
   \<and> aliasFragment (js '' AS x'')
   \<and> isSpace (hd (js '' y''))
   \<and> \<not> startsWithAlias (js '' y'')
   \<and> \<not> startsWithAlias (js ''y'')
   \<and> removeAS (js ''repo'' @ js '' AS x'' @ js '' y'') = js ''repo'' @ removeAS (js '' y'')
   \<and> removeAS (js '' y'') = js '' y''"
proof -
  let ?whole = "js ''repo'' @ js '' AS x'' @ js '' y''"
  have n0: "\<not> startsWithAlias (js ''repo AS x y'')"
    unfolding startsWithAlias_iff_match by code_simp
  have n1: "\<not> startsWithAlias (js ''epo AS x y'')"
    unfolding startsWithAlias_iff_match by code_simp
  have n2: "\<not> startsWithAlias (js ''po AS x y'')"
    unfolding startsWithAlias_iff_match by code_simp
  have n3: "\<not> startsWithAlias (js ''o AS x y'')"
    unfolding startsWithAlias_iff_match by code_simp
  have y0: "\<not> startsWithAlias (js '' y'')"
    unfolding startsWithAlias_iff_match by code_simp
  have y1: "\<not> startsWithAlias (js ''y'')"
    unfolding startsWithAlias_iff_match by code_simp
  have d0: "drop 0 ?whole = js ''repo AS x y''" by (simp add: js_def)
  have d1: "drop 1 ?whole = js ''epo AS x y''" by (simp add: js_def)
  have d2: "drop 2 ?whole = js ''po AS x y''" by (simp add: js_def)
  have d3: "drop 3 ?whole = js ''o AS x y''" by (simp add: js_def)
  have sp: "isSpace (ch CHR '' '')" by code_simp
  have nx: "\<not> isSpace (ch CHR ''x'')" by code_simp
  have h1: "\<forall>i<length (js ''repo''). \<not> startsWithAlias (drop i ?whole)"
  proof (intro allI impI)
    fix i assume "i < length (js ''repo'')"
    then have "i = 0 \<or> i = 1 \<or> i = 2 \<or> i = 3"
      by (auto simp: js_def)
    then show "\<not> startsWithAlias (drop i ?whole)"
      using n0 n1 n2 n3 d0 d1 d2 d3 by (elim disjE) (simp_all only: simp_thms)
  qed
  have h2: "aliasFragment (js '' AS x'')"
    unfolding aliasFragment_def
  proof (intro exI conjI)
    show "js '' AS x'' = js '' '' @ js ''AS'' @ js '' '' @ js ''x''"
      by (simp add: js_def)
    show "js '' '' \<noteq> []" "js '' '' \<noteq> []" "js ''x'' \<noteq> []"
      by (simp_all add: js_def)
    show "\<forall>c\<in>set (js '' ''). isSpace c" "\<forall>c\<in>set (js '' ''). isSpace c"
      using sp by (simp_all add: js_def)
    show "js ''AS'' \<in> {js ''AS'', js ''As'', js ''aS'', js ''as''}"
      by simp
    show "\<forall>c\<in>set (js ''x''). \<not> isSpace c"
      using nx by (simp add: js_def)
  qed
  have h3: "isSpace (hd (js '' y''))"
    using sp by (simp add: js_def)
  then have h3': "js '' y'' = [] \<or> isSpace (hd (js '' y''))"
    by simp
  have h4: "\<forall>i<length (js '' y''). \<not> startsWithAlias (drop i (js '' y''))"
  proof (intro allI impI)
    fix i assume "i < length (js '' y'')"
    then have "i = 0 \<or> i = 1"
      by (auto simp: js_def)
    moreover have "drop 1 (js '' y'') = js ''y''" by (simp add: js_def)
    ultimately show "\<not> startsWithAlias (drop i (js '' y''))"
      using y0 y1 by (elim disjE) simp_all
  qed
  from alias_removed_wherever_it_stands [OF h1 h2 h3', of "js '' y''"] h4
  have "removeAS ?whole = js ''repo'' @ removeAS (js '' y'')"
    and "removeAS (js '' y'') = js '' y''"
    by blast+
  with n0 n1 n2 n3 h2 h3 y0 y1 show ?thesis
    by (simp only: simp_thms)
qed

end
